theory Spec2Isabelle
  imports
    Main
    "HOL-Library.Word"
    "HOL-Library.Multiset"
    "HOL-Library.Char_ord"
    "HOL-Library.List_Lexorder"
    "HOL-Library.Product_Lexorder"
    "HOL-Library.AList"
    "HOL-Library.Sublist"
begin

unbundle bit_operations_syntax

section \<open>Outcomes of Go calls\<close>

text \<open>
  A Go call either returns a value, returns a non-nil \<open>error\<close>, or panics.  An
  \<open>error\<close> value is either a plain Go error (only a text) or a gRPC status error,
  which carries a status code and a message (\<open>status.Error(code, msg)\<close>).
\<close>

datatype code = Internal | InvalidArgument | Unknown | Canceled | Unavailable

datatype go_error = GoError string | StatusError code string

datatype 'a outcome = Ok 'a | Err go_error | Panic string

definition code_name :: "code \<Rightarrow> string" where
  "code_name c =
     (case c of Internal \<Rightarrow> ''Internal'' | InvalidArgument \<Rightarrow> ''InvalidArgument''
      | Unknown \<Rightarrow> ''Unknown'' | Canceled \<Rightarrow> ''Canceled'' | Unavailable \<Rightarrow> ''Unavailable'')"

text \<open>\<open>err.Error()\<close>.\<close>

definition Error_text :: "go_error \<Rightarrow> string" where
  "Error_text err =
     (case err of
        GoError msg \<Rightarrow> msg
      | StatusError c msg \<Rightarrow> ''rpc error: code = '' @ code_name c @ '' desc = '' @ msg)"

type_synonym byte = "8 word"

section \<open>Credentials from the environment\<close>

text \<open>
  \<open>getAuthCredentials\<close>, \<open>applyPrefix\<close> and \<open>usingApproleAuth\<close> are the same in
  package \<open>hashicorp\<close> (client.go) and package \<open>manager\<close> (signer.go).
  \<open>os.Getenv\<close> returns the empty string for a variable that is not set, so the
  process environment is a total function from names to strings.
\<close>

type_synonym environ = "string \<Rightarrow> string"

definition DefaultRoleIDEnv :: string where
  "DefaultRoleIDEnv = ''QRM_HASHIVLT_ROLE_ID''"

definition DefaultSecretIDEnv :: string where
  "DefaultSecretIDEnv = ''QRM_HASHIVLT_SECRET_ID''"

definition DefaultTokenEnv :: string where
  "DefaultTokenEnv = ''QRM_HASHIVLT_TOKEN''"

record authCredentials =
  roleID :: string
  secretID :: string
  token :: string

datatype cred_error =
    noHashicorpEnvSetErr string string string
  | invalidApproleAuthErr string string

definition applyPrefix :: "string \<Rightarrow> string \<Rightarrow> string" where
  "applyPrefix pre val = (if pre = [] then val else pre @ ''_'' @ val)"

definition getAuthCredentials :: "environ \<Rightarrow> string \<Rightarrow> cred_error + authCredentials" where
  "getAuthCredentials getenv authID =
     (let roleIDEnv = applyPrefix authID DefaultRoleIDEnv;
          secretIDEnv = applyPrefix authID DefaultSecretIDEnv;
          tokenEnv = applyPrefix authID DefaultTokenEnv;
          r = getenv roleIDEnv;
          s = getenv secretIDEnv;
          t = getenv tokenEnv
      in if r = [] \<and> s = [] \<and> t = [] then
           Inl (noHashicorpEnvSetErr roleIDEnv secretIDEnv tokenEnv)
         else if (r = [] \<and> s \<noteq> []) \<or> (r \<noteq> [] \<and> s = []) then
           Inl (invalidApproleAuthErr roleIDEnv secretIDEnv)
         else
           Inr \<lparr>roleID = r, secretID = s, token = t\<rparr>)"

definition usingApproleAuth :: "authCredentials \<Rightarrow> bool" where
  "usingApproleAuth a \<longleftrightarrow> roleID a \<noteq> [] \<and> secretID a \<noteq> []"

text \<open>
  An environment that sets exactly the three variables of one auth-ID and nothing
  else; it serves to write concrete environments.
\<close>

definition env_of :: "string \<Rightarrow> string \<Rightarrow> string \<Rightarrow> string \<Rightarrow> environ" where
  "env_of authID r s t =
     (\<lambda>n. if n = applyPrefix authID DefaultRoleIDEnv then r
          else if n = applyPrefix authID DefaultSecretIDEnv then s
          else if n = applyPrefix authID DefaultTokenEnv then t
          else [])"

section \<open>Vault responses and the vault client\<close>

text \<open>
  A value of Go's \<open>interface{}\<close> as the vault API decodes it from JSON.  A Go map
  is written as an association list; \<open>AList.clearjunk\<close> keeps the entry that
  \<open>map_of\<close> sees for each key, so it lists the map's entries once per key.
\<close>

datatype dyn =
    DNil
  | DString string
  | DNumber string
  | DBool bool
  | DList "dyn list"
  | DMap "(string \<times> dyn) list"

definition go_len :: "('k \<times> 'v) list \<Rightarrow> nat" where
  "go_len m = length (AList.clearjunk m)"

definition go_values :: "('k \<times> 'v) list \<Rightarrow> 'v list" where
  "go_values m = map snd (AList.clearjunk m)"

text \<open>\<open>api.Secret\<close>: only the fields the plugin reads.\<close>

record Secret =
  Data :: "(string \<times> dyn) list"

text \<open>
  The vault behind one \<open>*api.Client\<close>, as the plugin uses it: each call returns
  \<open>(resp, err)\<close>, here \<open>Inl err\<close> or \<open>Inr resp\<close> with \<open>None\<close> for a nil
  response.  \<open>TokenID\<close> and \<open>NewRenewer\<close> are the vault API's functions of the
  login response; the renewer is opaque (\<open>'r\<close>).
\<close>

record 'r vault =
  ReadWithData :: "string \<Rightarrow> (string \<times> string list) list \<Rightarrow> string + Secret option"
  Write :: "string \<Rightarrow> (string \<times> dyn) list \<Rightarrow> string + Secret option"
  TokenID :: "Secret option \<Rightarrow> string + string"
  NewRenewer :: "Secret option \<Rightarrow> string + 'r"

record VaultAuth =
  AuthID :: string
  ApprolePath :: string

record PathParams =
  SecretEnginePath :: string
  SecretPath :: string
  SecretVersion :: int

record VaultSecretConfig =
  pathParams :: PathParams
  authID :: string
  InsecureSkipCas :: bool
  CasValue :: nat

text \<open>\<open>strconv.FormatInt(v, 10)\<close>.\<close>

function FormatNat :: "nat \<Rightarrow> string" where
  "FormatNat n =
     (if n < 10 then [char_of (48 + n)]
      else FormatNat (n div 10) @ [char_of (48 + n mod 10)])"
  by pat_completeness auto
termination
  by (relation "measure id") auto

declare FormatNat.simps [simp del]

definition FormatInt :: "int \<Rightarrow> string" where
  "FormatInt v = (if v < 0 then ''-'' @ FormatNat (nat (- v)) else FormatNat (nat v))"

record 'r vaultClientManager =
  vaultAddr :: string
  acctConfigDir :: string
  clients :: "string \<rightharpoonup> 'r vault"

datatype secret_error =
    NoClientConfigured string string
  | UnableToGetSecret string
  | NoDataForSecret
  | ResponseHasNoData
  | OnlyOnePairAllowed
  | DataNotString

text \<open>
  \<open>resp.Data["data"].(map[string]interface{})\<close> and what follows it in
  \<open>getSecretFromVault\<close>: the type assertion, the length check, the loop that keeps
  the last value ranged over, and the assertion to string.
\<close>

definition secretOfResponse :: "Secret \<Rightarrow> secret_error + string" where
  "secretOfResponse resp =
     (case map_of (Data resp) ''data'' of
        Some (DMap respData) \<Rightarrow>
          if go_len respData \<noteq> 1 then Inl OnlyOnePairAllowed
          else (case fold (\<lambda>d s. d) (go_values respData) DNil of
                  DString secret \<Rightarrow> Inr secret
                | _ \<Rightarrow> Inl DataNotString)
      | _ \<Rightarrow> Inl ResponseHasNoData)"

text \<open>
  \<open>getSecretFromVault\<close> of package \<open>manager\<close> (signer.go); the one of package
  \<open>hashicorp\<close> (client.go) differs only in reading the same fields from
  \<open>config.HashicorpVault\<close> and in building the path before looking the client up.
\<close>

definition getSecretFromVault ::
  "'r vaultClientManager \<Rightarrow> VaultSecretConfig \<Rightarrow> secret_error + string" where
  "getSecretFromVault m vaultAccountConfig =
     (case clients m (authID vaultAccountConfig) of
        None \<Rightarrow> Inl (NoClientConfigured (vaultAddr m) (authID vaultAccountConfig))
      | Some client \<Rightarrow>
          let path = SecretEnginePath (pathParams vaultAccountConfig) @ ''/data/''
                       @ SecretPath (pathParams vaultAccountConfig);
              versionData =
                [(''version'', [FormatInt (SecretVersion (pathParams vaultAccountConfig))])]
          in case ReadWithData client path versionData of
               Inl err \<Rightarrow> Inl (UnableToGetSecret err)
             | Inr None \<Rightarrow> Inl NoDataForSecret
             | Inr (Some resp) \<Rightarrow> secretOfResponse resp)"

subsection \<open>Package hashicorp (client.go): the unimplemented operations\<close>

text \<open>
  \<open>StoreKey(filename, k, auth)\<close> and \<open>JoinPath(filename)\<close> of client.go consist of
  \<open>panic("implement me")\<close>; the key is opaque (\<open>'key\<close>).
\<close>

definition hashicorp_StoreKey ::
  "'r vaultClientManager \<Rightarrow> string \<Rightarrow> 'key \<Rightarrow> string \<Rightarrow> unit outcome" where
  "hashicorp_StoreKey m filename k auth = Panic ''implement me''"

definition hashicorp_JoinPath :: "'r vaultClientManager \<Rightarrow> string \<Rightarrow> string outcome" where
  "hashicorp_JoinPath m filename = Panic ''implement me''"

section \<open>Token renewal and re-authentication\<close>

text \<open>
  An authenticated client: the token installed on the embedded \<open>*api.Client\<close>, the
  current renewer and the auth config.  What the renewal goroutine does is recorded as
  a trace of actions.
\<close>

record 'r authenticatedClient =
  clientToken :: string
  renewer :: 'r
  authConfig :: VaultAuth

datatype reauth_error = CredentialError cred_error | VaultError string

datatype 'r action =
    LogRenewalStopped "string option"
  | LogReauthenticated
  | LogReauthFailed nat reauth_error
  | LogRenewed
  | Sleep nat
  | StartRenew 'r

text \<open>What the select statement of \<open>renew\<close> receives.\<close>

datatype chan_msg = DoneCh "string option" | RenewCh

definition approleLogin ::
  "'r vault \<Rightarrow> authCredentials \<Rightarrow> string \<Rightarrow> string + Secret option" where
  "approleLogin c creds approlePath =
     (let body = [(''role_id'', DString (roleID creds)),
                  (''secret_id'', DString (secretID creds))];
          approle = (if approlePath = [] then ''approle'' else approlePath)
      in Write c (''auth/'' @ approle @ ''/login'') body)"

subsection \<open>Package manager (signer.go)\<close>

text \<open>\<open>reauthRetryInterval\<close>, in milliseconds.\<close>

definition reauthRetryInterval :: nat where
  "reauthRetryInterval = 5000"

text \<open>
  \<open>reauthenticate\<close> returns the error (if any) and the client as it has left it: the
  token is replaced before the new renewer is made, so a failing \<open>NewRenewer\<close> leaves
  the new token installed.
\<close>

definition reauthenticate ::
  "environ \<Rightarrow> 'r vault \<Rightarrow> 'r authenticatedClient
     \<Rightarrow> reauth_error option \<times> 'r authenticatedClient" where
  "reauthenticate getenv c ac =
     (case getAuthCredentials getenv (AuthID (authConfig ac)) of
        Inl err \<Rightarrow> (Some (CredentialError err), ac)
      | Inr creds \<Rightarrow>
          (case approleLogin c creds (ApprolePath (authConfig ac)) of
             Inl err \<Rightarrow> (Some (VaultError err), ac)
           | Inr resp \<Rightarrow>
               (case TokenID c resp of
                  Inl err \<Rightarrow> (Some (VaultError err), ac)
                | Inr t \<Rightarrow>
                    (let ac1 = ac\<lparr>clientToken := t\<rparr>
                     in case NewRenewer c resp of
                          Inl err \<Rightarrow> (Some (VaultError err), ac1)
                        | Inr r \<Rightarrow> (None, ac1\<lparr>renewer := r\<rparr>)))))"

text \<open>
  The loop \<open>for i := 1; ; i++\<close> of \<open>renew\<close>.  The environment and the vault may
  change between attempts: \<open>world i\<close> is what attempt \<open>i\<close> finds.  The loop has no
  exit but a successful attempt, so it is a partial function: \<open>None\<close> is the run that
  never leaves the loop.
\<close>

partial_function (option) reauth_loop ::
  "(nat \<Rightarrow> environ \<times> 'r vault) \<Rightarrow> nat \<Rightarrow> 'r authenticatedClient \<Rightarrow> 'r action list
     \<Rightarrow> ('r authenticatedClient \<times> 'r action list) option" where
  "reauth_loop world i ac tr =
     (case reauthenticate (fst (world i)) (snd (world i)) ac of
        (None, ac1) \<Rightarrow> Some (ac1, tr @ [LogReauthenticated])
      | (Some err, ac1) \<Rightarrow>
          reauth_loop world (Suc i) ac1 (tr @ [LogReauthFailed i err, Sleep reauthRetryInterval]))"

text \<open>One round of the select statement of \<open>renew\<close>.\<close>

definition renew_select ::
  "(nat \<Rightarrow> environ \<times> 'r vault) \<Rightarrow> 'r authenticatedClient \<Rightarrow> chan_msg
     \<Rightarrow> ('r authenticatedClient \<times> 'r action list) option" where
  "renew_select world ac msg =
     (case msg of
        RenewCh \<Rightarrow> Some (ac, [LogRenewed])
      | DoneCh err \<Rightarrow>
          (case reauth_loop world 1 ac [LogRenewalStopped err] of
             None \<Rightarrow> None
           | Some (ac1, tr) \<Rightarrow> Some (ac1, tr @ [StartRenew (renewer ac1)])))"

subsection \<open>Package hashicorp (client.go)\<close>

text \<open>
  One round of the select statement of client.go's \<open>renew\<close>.  Every error is logged
  and the round goes on with what the failed call returned: zero credentials, a nil
  response, an empty token.  A nil error on the done channel is not logged.
\<close>

datatype 'r hashicorp_action =
    HLogRenewalFailed string
  | HLogReauthFailed reauth_error
  | HLogRenewed
  | HSetToken string
  | HStartRenew 'r

definition hashicorp_renew_select ::
  "environ \<Rightarrow> 'r vault \<Rightarrow> 'r authenticatedClient \<Rightarrow> chan_msg
     \<Rightarrow> 'r authenticatedClient \<times> 'r hashicorp_action list" where
  "hashicorp_renew_select getenv c ac msg =
     (case msg of
        RenewCh \<Rightarrow> (ac, [HLogRenewed])
      | DoneCh err \<Rightarrow>
          (let tr0 = (case err of None \<Rightarrow> [] | Some e \<Rightarrow> [HLogRenewalFailed e]);
               (creds, tr1) =
                 (case getAuthCredentials getenv (AuthID (authConfig ac)) of
                    Inl e \<Rightarrow> (\<lparr>roleID = [], secretID = [], token = []\<rparr>,
                               tr0 @ [HLogReauthFailed (CredentialError e)])
                  | Inr cr \<Rightarrow> (cr, tr0));
               (resp, tr2) =
                 (case approleLogin c creds (ApprolePath (authConfig ac)) of
                    Inl e \<Rightarrow> (None, tr1 @ [HLogReauthFailed (VaultError e)])
                  | Inr r \<Rightarrow> (r, tr1));
               (t, tr3) =
                 (case TokenID c resp of
                    Inl e \<Rightarrow> ([], tr2 @ [HLogReauthFailed (VaultError e)])
                  | Inr t \<Rightarrow> (t, tr2))
           in (ac\<lparr>clientToken := t\<rparr>, tr3 @ [HSetToken t, HStartRenew (renewer ac)])))"


section \<open>Accounts and wallet URLs (go-ethereum's \<open>accounts\<close> and \<open>common\<close>)\<close>

text \<open>
  \<open>common.Address\<close> is \<open>[20]byte\<close>; it is written as a list of bytes, of length
  20 in every well-formed account.  \<open>accounts.URL\<close> is a scheme and a path, and
  \<open>URL.Cmp\<close> compares the schemes and, when they are equal, the paths, each with
  \<open>strings.Compare\<close> (bytewise lexicographic order, the order of \<open>string\<close> here).
\<close>

type_synonym Address = "byte list"

definition AddressLength :: nat where
  "AddressLength = 20"

definition zeroAddress :: Address where
  "zeroAddress = replicate AddressLength 0"

record URL =
  Scheme :: string
  Path :: string

record Account =
  Address :: Address
  Url :: URL

definition strings_Compare :: "string \<Rightarrow> string \<Rightarrow> int" where
  "strings_Compare a b = (if a = b then 0 else if a < b then - 1 else 1)"

definition URL_Cmp :: "URL \<Rightarrow> URL \<Rightarrow> int" where
  "URL_Cmp u url =
     (if Scheme u = Scheme url then strings_Compare (Path u) (Path url)
      else strings_Compare (Scheme u) (Scheme url))"

definition URL_String :: "URL \<Rightarrow> string" where
  "URL_String u = (if Scheme u \<noteq> [] then Scheme u @ ''://'' @ Path u else Path u)"

text \<open>
  The key that \<open>URL.Cmp\<close> orders by, and the order \<open>AccountsByURL\<close> sorts accounts
  in (\<open>Less(i, j) = s[i].URL.Cmp(s[j].URL) < 0\<close>).
\<close>

definition url_key :: "URL \<Rightarrow> string \<times> string" where
  "url_key u = (Scheme u, Path u)"

definition sortedByURL :: "Account list \<Rightarrow> bool" where
  "sortedByURL xs = sorted_wrt (\<lambda>a b. URL_Cmp (Url a) (Url b) \<le> 0) xs"

text \<open>
  \<open>sort.Sort(vault.AccountsByURL(xs))\<close>.  The type \<open>vault.AccountsByURL\<close> is not
  among the sources; its order is that of the copy left as a comment in the cache
  file.  Go's sort is not stable; accounts with equal URLs may come out in any order,
  of which the insertion sort here gives one.
\<close>

definition sort_AccountsByURL :: "Account list \<Rightarrow> Account list" where
  "sort_AccountsByURL xs = sort_key (\<lambda>a. url_key (Url a)) xs"

section \<open>The account cache (package cache)\<close>

text \<open>
  \<open>sort.Search(n, f)\<close>: binary search for the least index in \<open>[0, n)\<close> at which
  \<open>f\<close> holds, \<open>n\<close> if there is none.  The midpoint \<open>int(uint(i+j) >> 1)\<close> is
  \<open>(i + j) div 2\<close>: the indices are slice lengths, far below the range of \<open>uint\<close>.
\<close>

function Search_loop :: "(nat \<Rightarrow> bool) \<Rightarrow> nat \<Rightarrow> nat \<Rightarrow> nat" where
  "Search_loop f i j =
     (if i < j then
        (let h = (i + j) div 2
         in if \<not> f h then Search_loop f (h + 1) j else Search_loop f i h)
      else i)"
  by pat_completeness auto
termination
  by (relation "measure (\<lambda>(f, i, j). j - i)") auto

declare Search_loop.simps [simp del]

definition Search :: "nat \<Rightarrow> (nat \<Rightarrow> bool) \<Rightarrow> nat" where
  "Search n f = Search_loop f 0 n"

text \<open>
  The cache: the directory, the list \<open>All\<close> and the map \<open>ByAddr\<close>.  Indexing a Go
  map at a missing key gives the nil slice, which \<open>bucket\<close> reads as the empty list.
\<close>

record AccountCache =
  keydir :: string
  All :: "Account list"
  ByAddr :: "Address \<rightharpoonup> Account list"

definition bucket :: "(Address \<rightharpoonup> Account list) \<Rightarrow> Address \<Rightarrow> Account list" where
  "bucket m addr = (case m addr of None \<Rightarrow> [] | Some xs \<Rightarrow> xs)"

definition NewAccountCache :: "string \<Rightarrow> AccountCache" where
  "NewAccountCache dir = \<lparr>keydir = dir, All = [], ByAddr = Map.empty\<rparr>"

fun removeAccount :: "Account list \<Rightarrow> Account \<Rightarrow> Account list" where
  "removeAccount [] elem = []"
| "removeAccount (x # rest) elem =
     (if x = elem then rest else x # removeAccount rest elem)"

definition Add :: "AccountCache \<Rightarrow> Account \<Rightarrow> AccountCache" where
  "Add ac newAccount =
     (let i = Search (length (All ac))
                (\<lambda>i. URL_Cmp (Url (All ac ! i)) (Url newAccount) \<ge> 0)
      in if i < length (All ac) \<and> All ac ! i = newAccount then ac
         else ac\<lparr>All := take i (All ac) @ newAccount # drop i (All ac),
                 ByAddr := (ByAddr ac)(Address newAccount \<mapsto>
                             bucket (ByAddr ac) (Address newAccount) @ [newAccount])\<rparr>)"

text \<open>
  The tail that \<open>delete\<close> and \<open>deleteByFile\<close> share: take \<open>removed\<close> out of its
  bucket and drop the bucket when it becomes empty.
\<close>

definition removeFromByAddr ::
  "(Address \<rightharpoonup> Account list) \<Rightarrow> Account \<Rightarrow> (Address \<rightharpoonup> Account list)" where
  "removeFromByAddr m removed =
     (let ba = removeAccount (bucket m (Address removed)) removed
      in if length ba = 0 then m(Address removed := None)
         else m(Address removed \<mapsto> ba))"

definition delete :: "AccountCache \<Rightarrow> Account \<Rightarrow> AccountCache" where
  "delete ac removed =
     ac\<lparr>All := removeAccount (All ac) removed,
        ByAddr := removeFromByAddr (ByAddr ac) removed\<rparr>"

definition deleteByFile :: "AccountCache \<Rightarrow> string \<Rightarrow> AccountCache" where
  "deleteByFile ac path =
     (let i = Search (length (All ac)) (\<lambda>i. Path (Url (All ac ! i)) \<ge> path)
      in if i < length (All ac) \<and> Path (Url (All ac ! i)) = path then
           (let removed = All ac ! i
            in ac\<lparr>All := take i (All ac) @ drop (i + 1) (All ac),
                    ByAddr := removeFromByAddr (ByAddr ac) removed\<rparr>)
         else ac)"

text \<open>The three mutations as commands, and a run of them from the empty cache.\<close>

datatype cache_op = OpAdd Account | OpDelete Account | OpDeleteByFile string

fun apply_op :: "AccountCache \<Rightarrow> cache_op \<Rightarrow> AccountCache" where
  "apply_op ac (OpAdd a) = Add ac a"
| "apply_op ac (OpDelete a) = delete ac a"
| "apply_op ac (OpDeleteByFile p) = deleteByFile ac p"

definition run_ops :: "string \<Rightarrow> cache_op list \<Rightarrow> AccountCache" where
  "run_ops dir ops = foldl apply_op (NewAccountCache dir) ops"

text \<open>
  The two views agree: \<open>All\<close> is sorted by URL, and each bucket of \<open>ByAddr\<close>
  holds, with multiplicity, the accounts of \<open>All\<close> that have the bucket's address.
\<close>

definition consistent :: "AccountCache \<Rightarrow> bool" where
  "consistent ac \<longleftrightarrow>
     sortedByURL (All ac)
     \<and> (\<forall>addr. mset (bucket (ByAddr ac) addr)
              = filter_mset (\<lambda>a. Address a = addr) (mset (All ac)))"

subsection \<open>Find\<close>

text \<open>
  \<open>filepath.Separator\<close> on the platforms the plugin is built for (Linux, macOS).
  \<open>filepath.Join\<close> is the standard library's and is passed in as \<open>join\<close>.
\<close>

definition Separator :: char where
  "Separator = CHR ''/''"

datatype find_error = ErrNoMatch | AmbiguousAddrError Address "Account list"

text \<open>The slice \<open>matches\<close> that \<open>Find\<close> starts from.\<close>

definition candidates :: "AccountCache \<Rightarrow> Account \<Rightarrow> Account list" where
  "candidates ac a =
     (if Address a \<noteq> zeroAddress then bucket (ByAddr ac) (Address a) else All ac)"

text \<open>The path completion \<open>Find\<close> applies to its argument's URL.\<close>

definition completeURL :: "(string \<Rightarrow> string \<Rightarrow> string) \<Rightarrow> string \<Rightarrow> URL \<Rightarrow> URL" where
  "completeURL join dir u =
     (if Separator \<notin> set (Path u) then u\<lparr>Path := join dir (Path u)\<rparr> else u)"

definition Find ::
  "(string \<Rightarrow> string \<Rightarrow> string) \<Rightarrow> AccountCache \<Rightarrow> Account \<Rightarrow> find_error + Account" where
  "Find join ac a =
     (let matches = candidates ac a;
          by_len =
            (case matches of
               [m] \<Rightarrow> Inr m
             | [] \<Rightarrow> Inl ErrNoMatch
             | _ \<Rightarrow> Inl (AmbiguousAddrError (Address a) (sort_AccountsByURL matches)))
      in if Path (Url a) \<noteq> [] then
           (let url = completeURL join (keydir ac) (Url a)
            in case find (\<lambda>m. Url m = url) matches of
                 Some m \<Rightarrow> Inr m
               | None \<Rightarrow> if Address a = zeroAddress then Inl ErrNoMatch else by_len)
         else by_len)"


section \<open>Hex addresses (\<open>encoding/hex\<close>, \<open>strings\<close> and go-ethereum's \<open>common\<close>)\<close>

definition hextable :: string where
  "hextable = ''0123456789abcdef''"

text \<open>\<open>hex.EncodeToString\<close>, which is \<open>common.Bytes2Hex\<close>.\<close>

definition Bytes2Hex :: "byte list \<Rightarrow> string" where
  "Bytes2Hex d =
     concat (map (\<lambda>v. [hextable ! unat (drop_bit 4 v), hextable ! unat (v AND 0x0f)]) d)"

definition fromHexChar :: "char \<Rightarrow> byte option" where
  "fromHexChar c =
     (if CHR ''0'' \<le> c \<and> c \<le> CHR ''9'' then Some (of_char c - of_char CHR ''0'')
      else if CHR ''a'' \<le> c \<and> c \<le> CHR ''f'' then Some (of_char c - of_char CHR ''a'' + 10)
      else if CHR ''A'' \<le> c \<and> c \<le> CHR ''F'' then Some (of_char c - of_char CHR ''A'' + 10)
      else None)"

text \<open>
  \<open>common.Hex2Bytes\<close>: \<open>hex.DecodeString\<close> with its error dropped, which leaves the
  bytes decoded before the first invalid digit or the odd last digit.
\<close>

fun Hex2Bytes :: "string \<Rightarrow> byte list" where
  "Hex2Bytes (p # q # rest) =
     (case (fromHexChar p, fromHexChar q) of
        (Some a, Some b) \<Rightarrow> (push_bit 4 a OR b) # Hex2Bytes rest
      | _ \<Rightarrow> [])"
| "Hex2Bytes _ = []"

definition has0xPrefix :: "string \<Rightarrow> bool" where
  "has0xPrefix str \<longleftrightarrow>
     length str \<ge> 2 \<and> str ! 0 = CHR ''0'' \<and> (str ! 1 = CHR ''x'' \<or> str ! 1 = CHR ''X'')"

definition isHexCharacter :: "char \<Rightarrow> bool" where
  "isHexCharacter c \<longleftrightarrow>
     (CHR ''0'' \<le> c \<and> c \<le> CHR ''9'') \<or> (CHR ''a'' \<le> c \<and> c \<le> CHR ''f'')
       \<or> (CHR ''A'' \<le> c \<and> c \<le> CHR ''F'')"

definition isHex :: "string \<Rightarrow> bool" where
  "isHex str \<longleftrightarrow> length str mod 2 = 0 \<and> list_all isHexCharacter str"

definition IsHexAddress :: "string \<Rightarrow> bool" where
  "IsHexAddress s0 =
     (let s = (if has0xPrefix s0 then drop 2 s0 else s0)
      in length s = 2 * AddressLength \<and> isHex s)"

definition FromHex :: "string \<Rightarrow> byte list" where
  "FromHex s0 =
     (let s = (if has0xPrefix s0 then drop 2 s0 else s0);
          s1 = (if length s mod 2 = 1 then ''0'' @ s else s)
      in Hex2Bytes s1)"

definition BytesToAddress :: "byte list \<Rightarrow> Address" where
  "BytesToAddress b0 =
     (let b = (if length b0 > AddressLength then drop (length b0 - AddressLength) b0 else b0)
      in replicate (AddressLength - length b) 0 @ b)"

definition HexToAddress :: "string \<Rightarrow> Address" where
  "HexToAddress s = BytesToAddress (FromHex s)"

text \<open>
  \<open>strings.TrimSpace\<close> on ASCII text: the white space of Go's \<open>unicode.IsSpace\<close>
  below 128 is tab, line feed, vertical tab, form feed, carriage return and space.
  \<open>asAccount\<close> applies it to the output of \<open>Bytes2Hex\<close>, which is ASCII.
\<close>

definition isSpace :: "char \<Rightarrow> bool" where
  "isSpace c \<longleftrightarrow> c \<in> set [CHR 0x09, CHR 0x0A, CHR 0x0B, CHR 0x0C, CHR 0x0D, CHR '' '']"

definition TrimSpace :: "string \<Rightarrow> string" where
  "TrimSpace s = rev (dropWhile isSpace (rev (dropWhile isSpace s)))"

section \<open>The RPC adapter (package internal)\<close>

record protoAccount =
  pAddress :: "byte list"
  pUrl :: string

text \<open>
  \<open>asAccount\<close> takes a \<open>*proto.Account\<close>; a nil pointer is \<open>None\<close>, and reading its
  field panics.  \<open>utils.ToUrl\<close> is not among the sources and is passed in as \<open>toUrl\<close>.
\<close>

definition asAccount ::
  "(string \<Rightarrow> string + URL) \<Rightarrow> protoAccount option \<Rightarrow> Account outcome" where
  "asAccount toUrl pAcct =
     (case pAcct of
        None \<Rightarrow> Panic ''invalid memory address or nil pointer dereference''
      | Some pa \<Rightarrow>
          (let addr = TrimSpace (Bytes2Hex (pAddress pa))
           in if \<not> IsHexAddress addr then Err (GoError (''invalid hex address: '' @ addr))
              else (case toUrl (pUrl pa) of
                      Inl err \<Rightarrow> Err (GoError err)
                    | Inr url \<Rightarrow> Ok \<lparr>Address = HexToAddress addr, Url = url\<rparr>)))"

definition asProtoAccount :: "Account \<Rightarrow> protoAccount" where
  "asProtoAccount acct = \<lparr>pAddress = Address acct, pUrl = URL_String (Url acct)\<rparr>"

subsection \<open>Signing a transaction\<close>

text \<open>
  A wallet as the adapter uses it (\<open>accounts.Wallet\<close>); the transaction type and the
  RLP coder are go-ethereum's and opaque (\<open>'tx\<close>, \<open>rlp_DecodeBytes\<close>,
  \<open>rlp_EncodeToBytes\<close>).  Errors of these collaborators are their texts.
\<close>

record 'tx Wallet =
  wURL :: URL
  wSignTx :: "Account \<Rightarrow> 'tx \<Rightarrow> nat \<Rightarrow> string + 'tx"
  wSignTxWithPassphrase :: "Account \<Rightarrow> string \<Rightarrow> 'tx \<Rightarrow> nat \<Rightarrow> string + 'tx"

record 'tx Backend =
  Wallet :: "string \<Rightarrow> string + 'tx Wallet"
  Wallets :: "'tx Wallet list"
  ToUrl :: "string \<Rightarrow> string + URL"
  rlp_DecodeBytes :: "byte list \<Rightarrow> string + 'tx"
  rlp_EncodeToBytes :: "'tx \<Rightarrow> string + byte list"

record SignTxRequest =
  WalletUrl :: string
  Account :: "protoAccount option"
  RlpTx :: "byte list"
  ChainID :: "byte list"

record SignTxWithPassphraseRequest = SignTxRequest +
  Passphrase :: string

text \<open>\<open>big.Int.SetBytes\<close>: the bytes as a big-endian unsigned integer.\<close>

definition SetBytes :: "byte list \<Rightarrow> nat" where
  "SetBytes buf = foldl (\<lambda>acc b. acc * 256 + unat b) 0 buf"

definition SignTx :: "'tx Backend \<Rightarrow> SignTxRequest \<Rightarrow> byte list outcome" where
  "SignTx am req =
     (case Wallet am (WalletUrl req) of
        Inl err \<Rightarrow> Err (StatusError Internal err)
      | Inr w \<Rightarrow>
          (case asAccount (ToUrl am) (Account req) of
             Panic p \<Rightarrow> Panic p
           | Err err \<Rightarrow> Err (StatusError Internal (Error_text err))
           | Ok a \<Rightarrow>
               (case rlp_DecodeBytes am (RlpTx req) of
                  Inl err \<Rightarrow> Err (StatusError Internal err)
                | Inr tx \<Rightarrow>
                    (let chainID = SetBytes (ChainID req)
                     in case wSignTx w a tx chainID of
                          Inl err \<Rightarrow> Err (StatusError Internal err)
                        | Inr result \<Rightarrow>
                            (case rlp_EncodeToBytes am result of
                               Inl err \<Rightarrow> Err (GoError err)
                             | Inr rlpTx \<Rightarrow> Ok rlpTx)))))"

definition SignTxWithPassphrase ::
  "'tx Backend \<Rightarrow> SignTxWithPassphraseRequest \<Rightarrow> byte list outcome" where
  "SignTxWithPassphrase am req =
     (case Wallet am (WalletUrl req) of
        Inl err \<Rightarrow> Err (StatusError Internal err)
      | Inr w \<Rightarrow>
          (case asAccount (ToUrl am) (Account req) of
             Panic p \<Rightarrow> Panic p
           | Err err \<Rightarrow> Err (StatusError Internal (Error_text err))
           | Ok a \<Rightarrow>
               (case rlp_DecodeBytes am (RlpTx req) of
                  Inl err \<Rightarrow> Err (StatusError Internal err)
                | Inr tx \<Rightarrow>
                    (let chainID = SetBytes (ChainID req)
                     in case wSignTxWithPassphrase w a (Passphrase req) tx chainID of
                          Inl err \<Rightarrow> Err (StatusError Internal err)
                        | Inr result \<Rightarrow>
                            (case rlp_EncodeToBytes am result of
                               Inl err \<Rightarrow> Err (GoError err)
                             | Inr rlpTx \<Rightarrow> Ok rlpTx)))))"

subsection \<open>The event stream\<close>











subsection \<open>Init\<close>

text \<open>
  \<open>json.Unmarshal(data, v)\<close> of the standard library, for \<open>v\<close> a value of the
  configuration type or a non-nil pointer to one: invalid input gives the decoder's
  error; valid input is stored through \<open>v\<close> when \<open>v\<close> is a pointer, and gives an
  \<open>InvalidUnmarshalError\<close> when \<open>v\<close> is not a pointer.  \<open>parse\<close> is the decoding of
  the bytes into the configuration type.  The result is the error (if any) and the
  value the caller's variable holds afterwards.
\<close>

datatype 'c json_target = ByValue 'c | ByPointer 'c

definition json_Unmarshal ::
  "(byte list \<Rightarrow> string + 'c) \<Rightarrow> byte list \<Rightarrow> 'c json_target \<Rightarrow> string option \<times> 'c" where
  "json_Unmarshal parse data v =
     (case v of
        ByValue c \<Rightarrow>
          (case parse data of
             Inl err \<Rightarrow> (Some err, c)
           | Inr _ \<Rightarrow> (Some ''json: Unmarshal(non-pointer config.VaultClients)'', c))
      | ByPointer c \<Rightarrow>
          (case parse data of
             Inl err \<Rightarrow> (Some err, c)
           | Inr c1 \<Rightarrow> (None, c1)))"

text \<open>
  What \<open>Init\<close> is given besides the request: the configuration type's zero value,
  its decoding and \<open>Validate\<close>, and \<open>hashicorp.NewAccountManager\<close>; none of them is
  among the sources.
\<close>

record ('c, 'm) InitDeps =
  zeroConf :: 'c
  parseConf :: "byte list \<Rightarrow> string + 'c"
  Validate :: "'c \<Rightarrow> string option"
  NewAccountManager :: "'c \<Rightarrow> string + 'm"

text \<open>
  \<open>Init\<close> declares \<open>var conf config.VaultClients\<close> and passes \<open>conf\<close> itself, not
  its address, to \<open>json.Unmarshal\<close>.  Each error is returned as
  \<open>status.Errorf(codes.InvalidArgument, err.Error())\<close>; the error's text is taken as
  the message.
\<close>

definition Init :: "('c, 'm) InitDeps \<Rightarrow> byte list \<Rightarrow> unit outcome" where
  "Init deps rawConfiguration =
     (case json_Unmarshal (parseConf deps) rawConfiguration (ByValue (zeroConf deps)) of
        (Some err, conf) \<Rightarrow> Err (StatusError InvalidArgument err)
      | (None, conf) \<Rightarrow>
          (case Validate deps conf of
             Some err \<Rightarrow> Err (StatusError InvalidArgument err)
           | None \<Rightarrow>
               (case NewAccountManager deps conf of
                  Inl err \<Rightarrow> Err (StatusError InvalidArgument err)
                | Inr am \<Rightarrow> Ok ())))"


subsection \<open>Concrete collaborators\<close>

text \<open>
  Small concrete instances of the collaborators, to run the definitions on: a vault
  that refuses every request and one that accepts a login, a client, a backend with
  two wallets whose coder fails to encode, a signing request, a stream that is closed
  from the start and one that accepts everything, and a vault holding a secret with
  one key/value pair.
\<close>

definition vault_down :: "nat vault" where
  "vault_down =
     \<lparr>ReadWithData = (\<lambda>p d. Inl ''connection refused''),
      Write = (\<lambda>p d. Inl ''connection refused''),
      TokenID = (\<lambda>resp. Inr []),
      NewRenewer = (\<lambda>resp. Inr 1)\<rparr>"

definition vault_up :: "nat vault" where
  "vault_up =
     \<lparr>ReadWithData = (\<lambda>p d. Inl ''connection refused''),
      Write = (\<lambda>p d. Inr (Some \<lparr>Data = []\<rparr>)),
      TokenID = (\<lambda>resp. Inr ''s.new''),
      NewRenewer = (\<lambda>resp. Inr 7)\<rparr>"

text \<open>A world in which the vault refuses the first two login attempts.\<close>

definition world0 :: "nat \<Rightarrow> environ \<times> nat vault" where
  "world0 i =
     (if i < 3 then (env_of [] ''role'' ''secret'' [], vault_down)
      else (env_of [] ''role'' ''secret'' [], vault_up))"

definition client0 :: "nat authenticatedClient" where
  "client0 =
     \<lparr>clientToken = ''s.old'', renewer = 0,
      authConfig = \<lparr>AuthID = [], ApprolePath = []\<rparr>\<rparr>"

definition wallet1 :: "byte list Wallet" where
  "wallet1 =
     \<lparr>wURL = \<lparr>Scheme = ''file'', Path = ''/keys/a''\<rparr>,
      wSignTx = (\<lambda>a tx chainID. Inr tx),
      wSignTxWithPassphrase = (\<lambda>a pw tx chainID. Inr tx)\<rparr>"

definition wallet2 :: "byte list Wallet" where
  "wallet2 = wallet1\<lparr>wURL := \<lparr>Scheme = ''file'', Path = ''/keys/b''\<rparr>\<rparr>"

definition backend0 :: "byte list Backend" where
  "backend0 =
     \<lparr>Wallet = (\<lambda>url. Inr wallet1),
      Wallets = [wallet1, wallet2],
      ToUrl = (\<lambda>s. Inr \<lparr>Scheme = ''file'', Path = ''/keys/a''\<rparr>),
      rlp_DecodeBytes = (\<lambda>b. Inr b),
      rlp_EncodeToBytes = (\<lambda>tx. Inl ''rlp: cannot encode'')\<rparr>"

definition request0 :: SignTxRequest where
  "request0 =
     \<lparr>WalletUrl = ''file:///keys/a'',
      Account = Some \<lparr>pAddress = replicate 20 0, pUrl = ''file:///keys/a''\<rparr>,
      RlpTx = [], ChainID = [1]\<rparr>"



definition vault_one_pair :: "nat vault" where
  "vault_one_pair =
     \<lparr>ReadWithData = (\<lambda>p d. Inr (Some \<lparr>Data =
         [(''data'', DMap [(''d1e1'', DString ''c0ffee'')]),
          (''metadata'', DMap [(''version'', DNumber ''1'')])]\<rparr>)),
      Write = (\<lambda>p d. Inl ''connection refused''),
      TokenID = (\<lambda>resp. Inr []),
      NewRenewer = (\<lambda>resp. Inr 1)\<rparr>"

definition manager0 :: "nat vaultClientManager" where
  "manager0 =
     \<lparr>vaultAddr = ''http://vault:8200'', acctConfigDir = ''/keys'',
      clients = [''auth1'' \<mapsto> vault_one_pair]\<rparr>"

definition secretConfig0 :: VaultSecretConfig where
  "secretConfig0 =
     \<lparr>pathParams = \<lparr>SecretEnginePath = ''kv'', SecretPath = ''acct'', SecretVersion = 1\<rparr>,
      authID = ''auth1'', InsecureSkipCas = False, CasValue = 0\<rparr>"

text \<open>
  Three accounts, two of them with the same address; a directory join for names that
  need no cleaning; a URL parser for \<open>file\<close> URLs.
\<close>

definition acctA :: Account where
  "acctA = \<lparr>Address = replicate 19 0 @ [1], Url = \<lparr>Scheme = ''file'', Path = ''/keys/a''\<rparr>\<rparr>"

definition acctB :: Account where
  "acctB = \<lparr>Address = replicate 19 0 @ [1], Url = \<lparr>Scheme = ''file'', Path = ''/keys/b''\<rparr>\<rparr>"

definition acctC :: Account where
  "acctC = \<lparr>Address = replicate 19 0 @ [2], Url = \<lparr>Scheme = ''file'', Path = ''/keys/c''\<rparr>\<rparr>"

definition join_simple :: "string \<Rightarrow> string \<Rightarrow> string" where
  "join_simple dir name = dir @ ''/'' @ name"

definition ToUrl_file :: "string \<Rightarrow> string + URL" where
  "ToUrl_file s =
     (if take 7 s = ''file://'' then Inr \<lparr>Scheme = ''file'', Path = drop 7 s\<rparr>
      else Inl ''protocol scheme missing'')"

section \<open>Credential validation\<close>

lemma env_names_distinct:
  "applyPrefix a DefaultRoleIDEnv \<noteq> applyPrefix a DefaultSecretIDEnv"
  "applyPrefix a DefaultRoleIDEnv \<noteq> applyPrefix a DefaultTokenEnv"
  "applyPrefix a DefaultSecretIDEnv \<noteq> applyPrefix a DefaultTokenEnv"
  by (simp_all add: applyPrefix_def DefaultRoleIDEnv_def DefaultSecretIDEnv_def
      DefaultTokenEnv_def)

lemma env_of_simps:
  "env_of a r s t (applyPrefix a DefaultRoleIDEnv) = r"
  "env_of a r s t (applyPrefix a DefaultSecretIDEnv) = s"
  "env_of a r s t (applyPrefix a DefaultTokenEnv) = t"
  using env_names_distinct [of a] by (simp_all add: env_of_def)

lemma env_of_Nil_simps:
  "env_of [] r s t DefaultRoleIDEnv = r"
  "env_of [] r s t DefaultSecretIDEnv = s"
  "env_of [] r s t DefaultTokenEnv = t"
  using env_of_simps [of "[]" r s t] by (simp_all add: applyPrefix_def)

text \<open>
  C8, as stated, says that credentials are read successfully whenever a token is set.
  With a token and a role-id set and the secret-id empty, the code returns the
  incomplete-AppRole error.
\<close>

theorem getAuthCredentials_token_and_role_only:
  "getAuthCredentials (env_of [] ''role'' [] ''tok'') []
     = Inl (invalidApproleAuthErr ''QRM_HASHIVLT_ROLE_ID'' ''QRM_HASHIVLT_SECRET_ID'')"
  by (simp add: getAuthCredentials_def env_of_Nil_simps Let_def applyPrefix_def
      DefaultRoleIDEnv_def [symmetric] DefaultSecretIDEnv_def [symmetric])

text \<open>
  C8, amended: for every environment and auth-ID, with \<open>r\<close>, \<open>s\<close> and \<open>t\<close> the
  values of the role-id, secret-id and token variables, reading credentials succeeds
  exactly when \<open>r\<close> and \<open>s\<close> are both set, or both empty with \<open>t\<close> set, and then
  returns the three values as read; it fails with the no-credentials error exactly
  when all three are empty, and with the incomplete-AppRole error exactly when exactly
  one of \<open>r\<close> and \<open>s\<close> is set, whether or not a token is set.
\<close>

theorem getAuthCredentials_cases:
  "(let r = getenv (applyPrefix a DefaultRoleIDEnv);
        s = getenv (applyPrefix a DefaultSecretIDEnv);
        t = getenv (applyPrefix a DefaultTokenEnv)
    in ((\<exists>c. getAuthCredentials getenv a = Inr c)
          \<longleftrightarrow> (r \<noteq> [] \<and> s \<noteq> []) \<or> (r = [] \<and> s = [] \<and> t \<noteq> []))
     \<and> (getAuthCredentials getenv a = Inr \<lparr>roleID = r, secretID = s, token = t\<rparr>
          \<longleftrightarrow> (r \<noteq> [] \<and> s \<noteq> []) \<or> (r = [] \<and> s = [] \<and> t \<noteq> []))
     \<and> (getAuthCredentials getenv a
           = Inl (noHashicorpEnvSetErr (applyPrefix a DefaultRoleIDEnv)
                    (applyPrefix a DefaultSecretIDEnv) (applyPrefix a DefaultTokenEnv))
          \<longleftrightarrow> r = [] \<and> s = [] \<and> t = [])
     \<and> (getAuthCredentials getenv a
           = Inl (invalidApproleAuthErr (applyPrefix a DefaultRoleIDEnv)
                    (applyPrefix a DefaultSecretIDEnv))
          \<longleftrightarrow> (r = []) \<noteq> (s = [])))"
  by (auto simp add: getAuthCredentials_def Let_def)

theorem getAuthCredentials_cases_witness:
  "getAuthCredentials (env_of ''A'' [] [] ''tok'') ''A''
      = Inr \<lparr>roleID = [], secretID = [], token = ''tok''\<rparr>
   \<and> getAuthCredentials (env_of ''A'' ''role'' [] ''tok'') ''A''
      = Inl (invalidApproleAuthErr ''A_QRM_HASHIVLT_ROLE_ID'' ''A_QRM_HASHIVLT_SECRET_ID'')"
  using getAuthCredentials_cases [of "env_of ''A'' [] [] ''tok''" "''A''"]
    getAuthCredentials_cases [of "env_of ''A'' ''role'' [] ''tok''" "''A''"]
  by (simp add: env_of_simps Let_def)
     (simp add: applyPrefix_def DefaultRoleIDEnv_def DefaultSecretIDEnv_def)


section \<open>Panics\<close>

text \<open>
  C1 says that no operation panics on any input, \<open>StoreKey\<close> and \<open>JoinPath\<close> of the
  vault client manager included.  In package \<open>hashicorp\<close> (client.go) both panic on
  every input.
\<close>

theorem hashicorp_StoreKey_JoinPath_panic:
  "hashicorp_StoreKey m filename k auth = Panic ''implement me''
   \<and> hashicorp_JoinPath m filename = Panic ''implement me''"
  by (simp add: hashicorp_StoreKey_def hashicorp_JoinPath_def)

section \<open>Init\<close>

text \<open>
  C2 says that \<open>Init\<close> acknowledges a configuration that parses and validates.
  \<open>Init\<close> hands its configuration variable to \<open>json.Unmarshal\<close> by value, so the
  call fails for every input and \<open>Init\<close> returns \<open>InvalidArgument\<close> always: with the
  decoder's error for bytes that do not parse, and with the non-pointer error for bytes
  that do.
\<close>

theorem Init_never_acks:
  "Init deps rawConfiguration
     = Err (StatusError InvalidArgument
         (case parseConf deps rawConfiguration of
            Inl err \<Rightarrow> err
          | Inr conf \<Rightarrow> ''json: Unmarshal(non-pointer config.VaultClients)''))"
  by (simp add: Init_def json_Unmarshal_def split: sum.splits)

section \<open>Error codes of the signing handlers\<close>

lemma asAccount_request0:
  "asAccount (ToUrl backend0) (Account request0)
     = Ok \<lparr>Address = replicate 20 0, Url = \<lparr>Scheme = ''file'', Path = ''/keys/a''\<rparr>\<rparr>"
  by code_simp

text \<open>
  C3 says that every error a handler returns is a gRPC status with code
  \<open>Internal\<close> or \<open>InvalidArgument\<close>.  \<open>SignTx\<close> and \<open>SignTxWithPassphrase\<close> return
  the error of the final RLP encoding as it is, without a status code.
\<close>

theorem SignTx_encode_error_unwrapped:
  "SignTx backend0 request0 = Err (GoError ''rlp: cannot encode'')
   \<and> SignTxWithPassphrase backend0
        \<lparr>WalletUrl = ''file:///keys/a'',
         Account = Some \<lparr>pAddress = replicate 20 0, pUrl = ''file:///keys/a''\<rparr>,
         RlpTx = [], ChainID = [1], Passphrase = ''pw''\<rparr>
      = Err (GoError ''rlp: cannot encode'')"
  by code_simp

text \<open>Every other error of \<open>SignTx\<close> is wrapped with code \<open>Internal\<close>.\<close>

lemma SignTx_errors:
  assumes "SignTx am req = Err e"
  shows "(\<exists>msg. e = StatusError Internal msg)
       \<or> (\<exists>tx msg. rlp_EncodeToBytes am tx = Inl msg \<and> e = GoError msg)"
  using assms
  by (auto simp: SignTx_def Let_def split: sum.splits outcome.splits)

section \<open>Reading a secret\<close>

lemma distinct_single: "distinct ys \<Longrightarrow> set ys = {k} \<Longrightarrow> ys = [k]"
  by (cases ys; cases "tl ys") auto

lemma clearjunk_single:
  assumes "map_of m = [k \<mapsto> v]"
  shows "AList.clearjunk m = [(k, v)]"
proof -
  let ?xs = "AList.clearjunk m"
  have d: "distinct (map fst ?xs)" by (rule AList.distinct_clearjunk)
  have mo: "map_of ?xs = [k \<mapsto> v]" using assms by (simp add: AList.map_of_clearjunk)
  have "set (map fst ?xs) = dom (map_of ?xs)" by (simp add: dom_map_of_conv_image_fst)
  also have "\<dots> = {k}" using mo by simp
  finally have "set (map fst ?xs) = {k}" .
  with d have "map fst ?xs = [k]" by (rule distinct_single)
  then obtain v' where xs: "?xs = [(k, v')]" by (cases ?xs) auto
  then have "map_of ?xs k = Some v'" by simp
  with mo have "v' = v" by simp
  with xs show ?thesis by simp
qed

lemma go_map_single:
  "go_len m = 1 \<and> go_values m = [v] \<longleftrightarrow> (\<exists>k. map_of m = [k \<mapsto> v])"
proof
  assume a: "go_len m = 1 \<and> go_values m = [v]"
  then obtain k where "AList.clearjunk m = [(k, v)]"
    by (cases "AList.clearjunk m") (auto simp: go_len_def go_values_def)
  then have "map_of (AList.clearjunk m) = [k \<mapsto> v]" by simp
  then show "\<exists>k. map_of m = [k \<mapsto> v]" by (auto simp: AList.map_of_clearjunk)
next
  assume "\<exists>k. map_of m = [k \<mapsto> v]"
  then show "go_len m = 1 \<and> go_values m = [v]"
    by (auto simp: go_len_def go_values_def dest: clearjunk_single)
qed

lemma go_len_one_values: "go_len m = 1 \<Longrightarrow> \<exists>v. go_values m = [v]"
  by (cases "AList.clearjunk m") (auto simp: go_len_def go_values_def)

lemma secretOfResponse_iff:
  "secretOfResponse resp = Inr s \<longleftrightarrow>
     (\<exists>respData k. map_of (Data resp) ''data'' = Some (DMap respData)
        \<and> map_of respData = [k \<mapsto> DString s])"
proof
  assume a: "secretOfResponse resp = Inr s"
  then obtain respData where rd: "map_of (Data resp) ''data'' = Some (DMap respData)"
    by (auto simp: secretOfResponse_def split: option.splits dyn.splits)
  with a have l: "go_len respData = 1"
    by (auto simp: secretOfResponse_def split: if_splits)
  then obtain v where v: "go_values respData = [v]" using go_len_one_values by blast
  with a rd l have "v = DString s"
    by (auto simp: secretOfResponse_def split: dyn.splits)
  with l v have "\<exists>k. map_of respData = [k \<mapsto> DString s]"
    using go_map_single [of respData v] by simp
  with rd show "\<exists>respData k. map_of (Data resp) ''data'' = Some (DMap respData)
        \<and> map_of respData = [k \<mapsto> DString s]" by blast
next
  assume "\<exists>respData k. map_of (Data resp) ''data'' = Some (DMap respData)
        \<and> map_of respData = [k \<mapsto> DString s]"
  then obtain respData k where rd: "map_of (Data resp) ''data'' = Some (DMap respData)"
    and m: "map_of respData = [k \<mapsto> DString s]" by blast
  from m have "go_len respData = 1 \<and> go_values respData = [DString s]"
    using go_map_single [of respData "DString s"] by blast
  with rd show "secretOfResponse resp = Inr s"
    by (simp add: secretOfResponse_def)
qed

text \<open>
  C4: \<open>getSecretFromVault\<close> returns the secret \<open>s\<close> exactly when a client is
  configured for the auth-ID, the read returns a response without error, the response's
  \<open>data\<close> field is a map, and that map has exactly one entry, whose value is the
  string \<open>s\<close>.  The result is a sum, so in every other case (no client, a failed
  read, an absent response, a missing or non-map \<open>data\<close> field, no or several entries,
  a value that is not a string) it is an error and carries no secret.
\<close>

theorem getSecretFromVault_iff:
  "getSecretFromVault m cfg = Inr s \<longleftrightarrow>
     (\<exists>client resp respData k.
        clients m (authID cfg) = Some client
      \<and> ReadWithData client
          (SecretEnginePath (pathParams cfg) @ ''/data/'' @ SecretPath (pathParams cfg))
          [(''version'', [FormatInt (SecretVersion (pathParams cfg))])] = Inr (Some resp)
      \<and> map_of (Data resp) ''data'' = Some (DMap respData)
      \<and> map_of respData = [k \<mapsto> DString s])"
  (is "?L \<longleftrightarrow> ?R")
proof (cases "clients m (authID cfg)")
  case None
  then show ?thesis by (simp add: getSecretFromVault_def)
next
  case (Some client)
  let ?read = "ReadWithData client
          (SecretEnginePath (pathParams cfg) @ ''/data/'' @ SecretPath (pathParams cfg))
          [(''version'', [FormatInt (SecretVersion (pathParams cfg))])]"
  show ?thesis
  proof (cases ?read)
    case (Inl err)
    with Some show ?thesis by (simp add: getSecretFromVault_def)
  next
    case (Inr ro)
    show ?thesis
    proof (cases ro)
      case None
      with Some Inr show ?thesis by (simp add: getSecretFromVault_def)
    next
      case (Some resp)
      with \<open>clients m (authID cfg) = Some client\<close> Inr
      have "?L \<longleftrightarrow> secretOfResponse resp = Inr s"
        by (simp add: getSecretFromVault_def)
      also have "\<dots> \<longleftrightarrow> ?R"
        using \<open>clients m (authID cfg) = Some client\<close> Inr Some
        by (simp add: secretOfResponse_iff)
      finally show ?thesis .
    qed
  qed
qed

theorem getSecretFromVault_iff_witness:
  "getSecretFromVault manager0 secretConfig0 = Inr ''c0ffee''
   \<and> getSecretFromVault manager0 (secretConfig0\<lparr>authID := ''other''\<rparr>)
       = Inl (NoClientConfigured ''http://vault:8200'' ''other'')"
  using getSecretFromVault_iff [of manager0 secretConfig0 "''c0ffee''"]
  by (simp add: getSecretFromVault_def manager0_def secretConfig0_def vault_one_pair_def
      secretOfResponse_def go_len_def go_values_def)

section \<open>Re-authentication\<close>

text \<open>
  C7 says that after the renewal stops the session re-authenticates, waiting 5 seconds
  after each failure and retrying until it succeeds.  \<open>renew\<close> of package
  \<open>hashicorp\<close> (client.go) makes one attempt: with no credentials in the environment
  and a vault that refuses the login it logs both errors, installs the empty token and
  restarts the old renewer: the round has no 5 second wait and no retry loop.
\<close>

theorem hashicorp_renew_no_retry:
  "hashicorp_renew_select (env_of [] [] [] []) vault_down client0 (DoneCh (Some ''lease expired''))
     = (client0\<lparr>clientToken := []\<rparr>,
        [HLogRenewalFailed ''lease expired'',
         HLogReauthFailed (CredentialError
           (noHashicorpEnvSetErr ''QRM_HASHIVLT_ROLE_ID'' ''QRM_HASHIVLT_SECRET_ID''
              ''QRM_HASHIVLT_TOKEN'')),
         HLogReauthFailed (VaultError ''connection refused''),
         HSetToken [],
         HStartRenew 0])"
  by code_simp

text \<open>
  \<open>renew\<close> of package \<open>manager\<close> (signer.go) does retry: a failed attempt is
  followed by a 5 second sleep and the next attempt, a successful one ends the loop,
  and a loop whose attempts all fail never returns.
\<close>

lemma reauth_loop_retry:
  "reauthenticate (fst (world i)) (snd (world i)) ac = (Some err, ac1) \<Longrightarrow>
     reauth_loop world i ac tr
       = reauth_loop world (Suc i) ac1 (tr @ [LogReauthFailed i err, Sleep 5000])"
  by (subst reauth_loop.simps) (simp add: reauthRetryInterval_def)

lemma reauth_loop_done:
  "reauthenticate (fst (world i)) (snd (world i)) ac = (None, ac1) \<Longrightarrow>
     reauth_loop world i ac tr = Some (ac1, tr @ [LogReauthenticated])"
  by (subst reauth_loop.simps) simp

lemma reauth_loop_Some_success:
  assumes "reauth_loop world i ac tr = Some y"
  shows "\<exists>j ac0. i \<le> j \<and> fst (reauthenticate (fst (world j)) (snd (world j)) ac0) = None"
proof (rule reauth_loop.raw_induct
    [where P = "\<lambda>world i ac tr y. \<exists>j ac0. i \<le> j
        \<and> fst (reauthenticate (fst (world j)) (snd (world j)) ac0) = None", OF _ assms])
  fix lp :: "(nat \<Rightarrow> environ \<times> 'a vault) \<Rightarrow> nat \<Rightarrow> 'a authenticatedClient \<Rightarrow> 'a action list
     \<Rightarrow> ('a authenticatedClient \<times> 'a action list) option"
  fix world i ac tr y
  assume IH: "\<And>world i ac tr y. lp world i ac tr = Some y \<Longrightarrow>
      \<exists>j ac0. i \<le> j \<and> fst (reauthenticate (fst (world j)) (snd (world j)) ac0) = None"
  assume body: "(case reauthenticate (fst (world i)) (snd (world i)) ac of
        (None, ac1) \<Rightarrow> Some (ac1, tr @ [LogReauthenticated])
      | (Some err, ac1) \<Rightarrow>
          lp world (Suc i) ac1 (tr @ [LogReauthFailed i err, Sleep reauthRetryInterval])) = Some y"
  show "\<exists>j ac0. i \<le> j \<and> fst (reauthenticate (fst (world j)) (snd (world j)) ac0) = None"
  proof (cases "reauthenticate (fst (world i)) (snd (world i)) ac")
    case (Pair r ac1)
    show ?thesis
    proof (cases r)
      case None
      with Pair have "fst (reauthenticate (fst (world i)) (snd (world i)) ac) = None" by simp
      then show ?thesis by blast
    next
      case (Some err)
      with Pair body
      have "lp world (Suc i) ac1 (tr @ [LogReauthFailed i err, Sleep reauthRetryInterval]) = Some y"
        by simp
      from IH [OF this] obtain j ac0 where "Suc i \<le> j"
        "fst (reauthenticate (fst (world j)) (snd (world j)) ac0) = None" by blast
      then have "i \<le> j \<and> fst (reauthenticate (fst (world j)) (snd (world j)) ac0) = None"
        by simp
      then show ?thesis by blast
    qed
  qed
qed

lemma reauth_loop_forever:
  assumes "\<And>j ac0. fst (reauthenticate (fst (world j)) (snd (world j)) ac0) \<noteq> None"
  shows "reauth_loop world i ac tr = None"
proof (cases "reauth_loop world i ac tr")
  case None
  then show ?thesis .
next
  case (Some y)
  from reauth_loop_Some_success [OF this] obtain j ac0
    where "fst (reauthenticate (fst (world j)) (snd (world j)) ac0) = None" by blast
  with assms [of j ac0] show ?thesis by simp
qed

text \<open>A run of the loop: two refused attempts, each followed by the sleep, then success.\<close>

lemma renew_select_retries:
  "renew_select world0 client0 (DoneCh None)
     = Some (client0\<lparr>clientToken := ''s.new'', renewer := 7\<rparr>,
         [LogRenewalStopped None,
          LogReauthFailed 1 (VaultError ''connection refused''), Sleep 5000,
          LogReauthFailed 2 (VaultError ''connection refused''), Sleep 5000,
          LogReauthenticated,
          StartRenew 7])"
proof -
  have f: "\<And>i. i < 3 \<Longrightarrow> reauthenticate (fst (world0 i)) (snd (world0 i)) client0
      = (Some (VaultError ''connection refused''), client0)"
    by (simp add: world0_def reauthenticate_def getAuthCredentials_def env_of_Nil_simps
        Let_def approleLogin_def vault_down_def applyPrefix_def client0_def)
  have s: "reauthenticate (fst (world0 3)) (snd (world0 3)) client0
      = (None, client0\<lparr>clientToken := ''s.new'', renewer := 7\<rparr>)"
    by (simp add: world0_def reauthenticate_def getAuthCredentials_def env_of_Nil_simps
        Let_def approleLogin_def vault_up_def applyPrefix_def client0_def)
  have "reauth_loop world0 1 client0 [LogRenewalStopped None]
      = Some (client0\<lparr>clientToken := ''s.new'', renewer := 7\<rparr>,
         [LogRenewalStopped None,
          LogReauthFailed 1 (VaultError ''connection refused''), Sleep 5000,
          LogReauthFailed 2 (VaultError ''connection refused''), Sleep 5000,
          LogReauthenticated])"
    using reauth_loop_retry [of world0 1 client0 _ client0 "[LogRenewalStopped None]", OF f]
      reauth_loop_retry [of world0 2 client0 _ client0, OF f]
      reauth_loop_done [of world0 3 client0 _, OF s]
    by (simp add: numeral_2_eq_2 numeral_3_eq_3)
  then show ?thesis by (simp add: renew_select_def)
qed

section \<open>The event stream\<close>






section \<open>The account cache\<close>

subsection \<open>Order and binary search\<close>

lemma strings_Compare_le: "strings_Compare a b \<le> 0 \<longleftrightarrow> a \<le> b"
  by (auto simp: strings_Compare_def)

lemma strings_Compare_ge: "strings_Compare a b \<ge> 0 \<longleftrightarrow> b \<le> a"
  by (auto simp: strings_Compare_def)

lemma URL_Cmp_le: "URL_Cmp u v \<le> 0 \<longleftrightarrow> url_key u \<le> url_key v"
  by (auto simp: URL_Cmp_def url_key_def strings_Compare_le less_eq_prod_def)

lemma URL_Cmp_ge: "URL_Cmp u v \<ge> 0 \<longleftrightarrow> url_key v \<le> url_key u"
  by (auto simp: URL_Cmp_def url_key_def strings_Compare_ge less_eq_prod_def)

lemma sortedByURL_iff: "sortedByURL xs \<longleftrightarrow> sorted (map (\<lambda>a. url_key (Url a)) xs)"
  by (simp add: sortedByURL_def URL_Cmp_le sorted_wrt_map)

lemma Search_loop_bounds: "i \<le> j \<Longrightarrow> i \<le> Search_loop f i j \<and> Search_loop f i j \<le> j"
proof (induction f i j rule: Search_loop.induct)
  case (1 f i j)
  show ?case
  proof (cases "i < j")
    case False
    with 1(3) show ?thesis by (subst Search_loop.simps, subst (2) Search_loop.simps) simp
  next
    case True
    let ?h = "(i + j) div 2"
    from True have h: "i \<le> ?h" "?h < j" by auto
    show ?thesis
    proof (cases "f ?h")
      case True
      with 1(2) [OF \<open>i < j\<close> refl] h have "i \<le> Search_loop f i ?h \<and> Search_loop f i ?h \<le> ?h"
        by simp
      moreover have "Search_loop f i j = Search_loop f i ?h"
        using \<open>i < j\<close> True by (subst Search_loop.simps) (simp add: Let_def)
      ultimately show ?thesis using h by linarith
    next
      case False
      with 1(1) [OF \<open>i < j\<close> refl] h
      have "?h + 1 \<le> Search_loop f (?h + 1) j \<and> Search_loop f (?h + 1) j \<le> j"
        by simp
      moreover have "Search_loop f i j = Search_loop f (?h + 1) j"
        using \<open>i < j\<close> False by (subst Search_loop.simps) (simp add: Let_def)
      ultimately show ?thesis using h by linarith
    qed
  qed
qed

lemma Search_le: "Search n f \<le> n"
  using Search_loop_bounds [of 0 n f] by (simp add: Search_def)

text \<open>On a predicate that is monotone below \<open>n\<close>, the search finds the boundary.\<close>

lemma Search_loop_boundary:
  "\<forall>a b. a \<le> b \<and> b < n \<and> f a \<longrightarrow> f b \<Longrightarrow>
   i \<le> j \<Longrightarrow> j \<le> n \<Longrightarrow> \<forall>k<i. \<not> f k \<Longrightarrow> \<forall>k. j \<le> k \<and> k < n \<longrightarrow> f k \<Longrightarrow>
     (\<forall>k<Search_loop f i j. \<not> f k) \<and> (\<forall>k. Search_loop f i j \<le> k \<and> k < n \<longrightarrow> f k)"
proof (induction f i j rule: Search_loop.induct)
  case (1 f i j)
  note mono = 1(3) and ij = 1(4) and jn = 1(5) and below = 1(6) and above = 1(7)
  show ?case
  proof (cases "i < j")
    case False
    with ij have "i = j" by simp
    moreover have "Search_loop f i j = i" using False by (subst Search_loop.simps) simp
    ultimately show ?thesis using below above by simp
  next
    case True
    let ?h = "(i + j) div 2"
    from True have h: "i \<le> ?h" "?h < j" by auto
    show ?thesis
    proof (cases "f ?h")
      case True
      have up: "\<forall>k. ?h \<le> k \<and> k < n \<longrightarrow> f k"
      proof (intro allI impI)
        fix k assume k: "?h \<le> k \<and> k < n"
        with True have "?h \<le> k \<and> k < n \<and> f ?h" by simp
        with mono show "f k" by blast
      qed
      have eq: "Search_loop f i j = Search_loop f i ?h"
        using \<open>i < j\<close> True by (subst Search_loop.simps) (simp add: Let_def)
      have nn: "\<not> \<not> f ?h" using True by simp
      have hn: "?h \<le> n" using h jn by simp
      from 1(2) [OF \<open>i < j\<close> refl nn mono h(1) hn below up]
      show ?thesis unfolding eq .
    next
      case False
      have low: "\<forall>k<?h + 1. \<not> f k"
      proof (intro allI impI)
        fix k assume "k < ?h + 1"
        then have kh: "k \<le> ?h" by simp
        have hn: "?h < n" using h jn by simp
        show "\<not> f k"
        proof
          assume "f k"
          with kh hn have "k \<le> ?h \<and> ?h < n \<and> f k" by simp
          with mono have "f ?h" by blast
          with False show False by simp
        qed
      qed
      have eq: "Search_loop f i j = Search_loop f (?h + 1) j"
        using \<open>i < j\<close> False by (subst Search_loop.simps) (simp add: Let_def)
      have hj: "?h + 1 \<le> j" using h by simp
      from 1(1) [OF \<open>i < j\<close> refl False mono hj jn low above]
      show ?thesis unfolding eq .
    qed
  qed
qed

lemma Search_boundary:
  assumes "\<forall>a b. a \<le> b \<and> b < n \<and> f a \<longrightarrow> f b"
  shows "(\<forall>k<Search n f. \<not> f k) \<and> (\<forall>k. Search n f \<le> k \<and> k < n \<longrightarrow> f k)"
  unfolding Search_def by (rule Search_loop_boundary [OF assms]) auto


lemma removeAccount_remove1: "removeAccount xs e = remove1 e xs"
  by (induction xs) auto

lemma mset_delete_nth:
  "i < length xs \<Longrightarrow> mset (take i xs @ drop (Suc i) xs) = mset xs - {#xs ! i#}"
proof -
  assume "i < length xs"
  then have "xs = take i xs @ xs ! i # drop (Suc i) xs" by (rule id_take_nth_drop)
  then have "mset xs = mset (take i xs @ drop (Suc i) xs) + {#xs ! i#}"
    by (metis add_mset_add_single mset.simps(2) mset_append union_mset_add_mset_right)
  then show ?thesis by simp
qed

lemma sorted_delete_nth:
  assumes "sorted (map f xs)"
  shows "sorted (map f (take i xs @ drop (Suc i) xs))"
proof -
  have "sorted (map f (take i xs @ drop i xs))" using assms by simp
  then have s: "sorted (map f (take i xs))" "sorted (map f (drop i xs))"
    "\<forall>x\<in>set (take i xs). \<forall>y\<in>set (drop i xs). f x \<le> f y"
    by (auto simp: sorted_append simp del: append_take_drop_id)
  have sub: "set (drop (Suc i) xs) \<subseteq> set (drop i xs)"
    by (rule set_drop_subset_set_drop) simp
  have "sorted (map f (drop (Suc i) xs))"
    using assms by (metis drop_map sorted_wrt_drop)
  with s sub show ?thesis by (auto simp: sorted_append)
qed

lemma sorted_insert_at:
  assumes "sorted (map f xs)"
    and "\<forall>k<i. f (xs ! k) \<le> f x" and "\<forall>k. i \<le> k \<and> k < length xs \<longrightarrow> f x \<le> f (xs ! k)"
  shows "sorted (map f (take i xs @ x # drop i xs))"
proof -
  have "sorted (map f (take i xs @ drop i xs))" using assms(1) by simp
  then have s: "sorted (map f (take i xs))" "sorted (map f (drop i xs))"
    "\<forall>a\<in>set (take i xs). \<forall>b\<in>set (drop i xs). f a \<le> f b"
    by (auto simp: sorted_append simp del: append_take_drop_id)
  have lo: "\<forall>a\<in>set (take i xs). f a \<le> f x"
  proof
    fix a assume "a \<in> set (take i xs)"
    then obtain k where "k < length (take i xs)" "take i xs ! k = a"
      by (auto simp: in_set_conv_nth)
    then have "k < i" "xs ! k = a" by auto
    with assms(2) show "f a \<le> f x" by auto
  qed
  have hi: "\<forall>b\<in>set (drop i xs). f x \<le> f b"
  proof
    fix b assume "b \<in> set (drop i xs)"
    then obtain k where k: "k < length (drop i xs)" "drop i xs ! k = b"
      by (auto simp: in_set_conv_nth)
    then have "i + k < length xs" "xs ! (i + k) = b" by auto
    with assms(3) show "f x \<le> f b" by (metis le_add1)
  qed
  from s lo hi show ?thesis by (auto simp: sorted_append)
qed

subsection \<open>The mutations keep the views consistent\<close>

lemma bucket_removeFromByAddr:
  "bucket (removeFromByAddr m r) addr
     = (if addr = Address r then remove1 r (bucket m addr) else bucket m addr)"
  by (simp add: removeFromByAddr_def bucket_def Let_def removeAccount_remove1)

lemma filter_mset_remove:
  "filter_mset (\<lambda>a. Address a = addr) (M - {#r#})
     = (if addr = Address r then filter_mset (\<lambda>a. Address a = addr) M - {#r#}
        else filter_mset (\<lambda>a. Address a = addr) M)"
  by (auto simp: filter_diff_mset)

lemma consistent_New: "consistent (NewAccountCache dir)"
  by (simp add: consistent_def NewAccountCache_def sortedByURL_def bucket_def)

lemma consistent_delete:
  assumes "consistent ac"
  shows "consistent (delete ac removed)"
proof -
  from assms have s: "sorted (map (\<lambda>a. url_key (Url a)) (All ac))"
    and b: "\<And>addr. mset (bucket (ByAddr ac) addr)
              = filter_mset (\<lambda>a. Address a = addr) (mset (All ac))"
    by (simp_all add: consistent_def sortedByURL_iff)
  have "sorted (map (\<lambda>a. url_key (Url a)) (remove1 removed (All ac)))"
    using s by (rule sorted_map_remove1)
  moreover have "\<And>addr. mset (bucket (removeFromByAddr (ByAddr ac) removed) addr)
      = filter_mset (\<lambda>a. Address a = addr) (mset (remove1 removed (All ac)))"
    by (simp add: bucket_removeFromByAddr b filter_mset_remove)
  ultimately show ?thesis
    by (simp add: consistent_def sortedByURL_iff delete_def removeAccount_remove1)
qed

lemma consistent_deleteByFile:
  assumes "consistent ac"
  shows "consistent (deleteByFile ac path)"
proof -
  from assms have s: "sorted (map (\<lambda>a. url_key (Url a)) (All ac))"
    and b: "\<And>addr. mset (bucket (ByAddr ac) addr)
              = filter_mset (\<lambda>a. Address a = addr) (mset (All ac))"
    by (simp_all add: consistent_def sortedByURL_iff)
  let ?i = "Search (length (All ac)) (\<lambda>i. Path (Url (All ac ! i)) \<ge> path)"
  show ?thesis
  proof (cases "?i < length (All ac) \<and> Path (Url (All ac ! ?i)) = path")
    case False
    then have "deleteByFile ac path = ac" by (auto simp: deleteByFile_def Let_def)
    with assms show ?thesis by simp
  next
    case True
    then have lt: "?i < length (All ac)" by simp
    let ?r = "All ac ! ?i"
    let ?all = "take ?i (All ac) @ drop (Suc ?i) (All ac)"
    from True have eq: "deleteByFile ac path
        = ac\<lparr>All := ?all, ByAddr := removeFromByAddr (ByAddr ac) ?r\<rparr>"
      by (simp add: deleteByFile_def Let_def)
    have "sorted (map (\<lambda>a. url_key (Url a)) ?all)" using s by (rule sorted_delete_nth)
    moreover have "\<And>addr. mset (bucket (removeFromByAddr (ByAddr ac) ?r) addr)
        = filter_mset (\<lambda>a. Address a = addr) (mset ?all)"
      by (simp only: mset_delete_nth [OF lt] bucket_removeFromByAddr filter_mset_remove)
         (simp add: b)
    ultimately show ?thesis unfolding eq by (simp add: consistent_def sortedByURL_iff)
  qed
qed

lemma consistent_Add:
  assumes "consistent ac"
  shows "consistent (Add ac newAccount)"
proof -
  from assms have s: "sorted (map (\<lambda>a. url_key (Url a)) (All ac))"
    and b: "\<And>addr. mset (bucket (ByAddr ac) addr)
              = filter_mset (\<lambda>a. Address a = addr) (mset (All ac))"
    by (simp_all add: consistent_def sortedByURL_iff)
  let ?key = "\<lambda>a. url_key (Url a)"
  let ?f = "\<lambda>i. URL_Cmp (Url (All ac ! i)) (Url newAccount) \<ge> 0"
  let ?i = "Search (length (All ac)) ?f"
  show ?thesis
  proof (cases "?i < length (All ac) \<and> All ac ! ?i = newAccount")
    case True
    then have "Add ac newAccount = ac" by (simp add: Add_def Let_def)
    with assms show ?thesis by simp
  next
    case False
    let ?all = "take ?i (All ac) @ newAccount # drop ?i (All ac)"
    let ?by = "(ByAddr ac)(Address newAccount \<mapsto>
                 bucket (ByAddr ac) (Address newAccount) @ [newAccount])"
    from False have eq: "Add ac newAccount = ac\<lparr>All := ?all, ByAddr := ?by\<rparr>"
      by (auto simp: Add_def Let_def)
    have mono: "\<forall>a b. a \<le> b \<and> b < length (All ac) \<and> ?f a \<longrightarrow> ?f b"
    proof (intro allI impI)
      fix a b assume h: "a \<le> b \<and> b < length (All ac) \<and> ?f a"
      then have "?key (All ac ! a) \<le> ?key (All ac ! b)"
        using s by (simp add: sorted_iff_nth_mono)
      moreover from h have "?key newAccount \<le> ?key (All ac ! a)" by (simp add: URL_Cmp_ge)
      ultimately show "?f b" by (simp add: URL_Cmp_ge)
    qed
    from Search_boundary [OF mono]
    have lo: "\<forall>k<?i. \<not> ?f k" and hi: "\<forall>k. ?i \<le> k \<and> k < length (All ac) \<longrightarrow> ?f k"
      by blast+
    have lo': "\<forall>k<?i. ?key (All ac ! k) \<le> ?key newAccount"
      using lo by (auto simp: URL_Cmp_ge)
    have hi': "\<forall>k. ?i \<le> k \<and> k < length (All ac) \<longrightarrow> ?key newAccount \<le> ?key (All ac ! k)"
      using hi by (simp add: URL_Cmp_ge)
    have "sorted (map ?key ?all)" using s lo' hi' by (rule sorted_insert_at)
    moreover have "mset ?all = add_mset newAccount (mset (All ac))"
      by (metis append_take_drop_id mset.simps(2) mset_append union_mset_add_mset_right)
    then have "\<And>addr. mset (bucket ?by addr) = filter_mset (\<lambda>a. Address a = addr) (mset ?all)"
      by (simp add: bucket_def b [unfolded bucket_def])
    ultimately show ?thesis unfolding eq by (simp add: consistent_def sortedByURL_iff)
  qed
qed

lemma consistent_apply_op: "consistent ac \<Longrightarrow> consistent (apply_op ac op)"
  by (cases op) (simp_all add: consistent_Add consistent_delete consistent_deleteByFile)

lemma consistent_foldl: "consistent ac \<Longrightarrow> consistent (foldl apply_op ac ops)"
  by (induction ops arbitrary: ac) (simp_all add: consistent_apply_op)

lemma consistent_run_ops: "consistent (run_ops dir ops)"
  by (simp add: run_ops_def consistent_foldl consistent_New)

text \<open>
  C6: after any sequence of \<open>Add\<close>, \<open>delete\<close> and \<open>deleteByFile\<close> from the empty
  cache, \<open>All\<close> is sorted by URL, every account of \<open>All\<close> is in the \<open>ByAddr\<close>
  bucket of its address, and every account of every bucket is in \<open>All\<close>.
\<close>

theorem cache_views_agree:
  "sortedByURL (All (run_ops dir ops))
   \<and> (\<forall>a\<in>set (All (run_ops dir ops)).
         a \<in> set (bucket (ByAddr (run_ops dir ops)) (Address a)))
   \<and> (\<forall>addr. \<forall>a\<in>set (bucket (ByAddr (run_ops dir ops)) addr).
         a \<in> set (All (run_ops dir ops)))"
proof -
  let ?ac = "run_ops dir ops"
  have c: "consistent ?ac" by (rule consistent_run_ops)
  then have b: "\<And>addr. mset (bucket (ByAddr ?ac) addr)
              = filter_mset (\<lambda>a. Address a = addr) (mset (All ?ac))"
    by (simp add: consistent_def)
  have "\<And>addr. set (bucket (ByAddr ?ac) addr) = {a \<in> set (All ?ac). Address a = addr}"
  proof -
    fix addr
    have "set (bucket (ByAddr ?ac) addr) = set_mset (mset (bucket (ByAddr ?ac) addr))" by simp
    also have "\<dots> = {a \<in> set (All ?ac). Address a = addr}" by (simp only: b) auto
    finally show "set (bucket (ByAddr ?ac) addr) = {a \<in> set (All ?ac). Address a = addr}" .
  qed
  with c show ?thesis by (simp add: consistent_def)
qed

theorem cache_views_agree_witness:
  "All (run_ops ''/keys''
          [OpAdd acctB, OpAdd acctA, OpAdd acctC, OpDeleteByFile ''/keys/c'',
           OpDelete acctB, OpAdd acctB]) = [acctA, acctB]
   \<and> bucket (ByAddr (run_ops ''/keys''
          [OpAdd acctB, OpAdd acctA, OpAdd acctC, OpDeleteByFile ''/keys/c'',
           OpDelete acctB, OpAdd acctB])) (Address acctA) = [acctA, acctB]
   \<and> sortedByURL [acctA, acctB]"
proof -
  have "All (run_ops ''/keys''
          [OpAdd acctB, OpAdd acctA, OpAdd acctC, OpDeleteByFile ''/keys/c'',
           OpDelete acctB, OpAdd acctB]) = [acctA, acctB]"
    by code_simp
  moreover have "bucket (ByAddr (run_ops ''/keys''
          [OpAdd acctB, OpAdd acctA, OpAdd acctC, OpDeleteByFile ''/keys/c'',
           OpDelete acctB, OpAdd acctB])) (Address acctA) = [acctA, acctB]"
    by code_simp
  ultimately show ?thesis
    using cache_views_agree [of "''/keys''"
        "[OpAdd acctB, OpAdd acctA, OpAdd acctC, OpDeleteByFile ''/keys/c'',
          OpDelete acctB, OpAdd acctB]"]
    by simp
qed

subsection \<open>Find\<close>

text \<open>
  C5, as stated, says that \<open>Find\<close> returns the account when exactly one candidate
  matches.  With a zero address the candidates are all accounts; when the specifier
  also gives a path that no account has, \<open>Find\<close> answers no-match although there is
  exactly one candidate.
\<close>

theorem Find_unmatched_path_zero_address:
  "candidates (run_ops ''/keys'' [OpAdd acctA])
      \<lparr>Address = zeroAddress, Url = \<lparr>Scheme = ''file'', Path = ''/keys/missing''\<rparr>\<rparr>
     = [acctA]
   \<and> Find join_simple (run_ops ''/keys'' [OpAdd acctA])
      \<lparr>Address = zeroAddress, Url = \<lparr>Scheme = ''file'', Path = ''/keys/missing''\<rparr>\<rparr>
     = Inl ErrNoMatch"
  by code_simp

lemma sort_AccountsByURL_sorted: "sortedByURL (sort_AccountsByURL xs)"
  by (simp add: sortedByURL_iff sort_AccountsByURL_def)

lemma sort_AccountsByURL_mset: "mset (sort_AccountsByURL xs) = mset xs"
  by (simp add: sort_AccountsByURL_def)

lemma candidates_run_ops:
  "set (candidates (run_ops dir ops) a)
     = (if Address a \<noteq> zeroAddress
        then {m \<in> set (All (run_ops dir ops)). Address m = Address a}
        else set (All (run_ops dir ops)))"
proof -
  let ?ac = "run_ops dir ops"
  have "consistent ?ac" by (rule consistent_run_ops)
  then have "mset (bucket (ByAddr ?ac) (Address a))
              = filter_mset (\<lambda>m. Address m = Address a) (mset (All ?ac))"
    by (simp add: consistent_def)
  then have "set_mset (mset (bucket (ByAddr ?ac) (Address a)))
              = set_mset (filter_mset (\<lambda>m. Address m = Address a) (mset (All ?ac)))"
    by (rule arg_cong)
  then have "set (bucket (ByAddr ?ac) (Address a)) = {m \<in> set (All ?ac). Address m = Address a}"
    by auto
  then show ?thesis by (simp add: candidates_def)
qed

lemma Find_exact:
  assumes "Path (Url a) \<noteq> []"
    and "\<exists>m\<in>set (candidates ac a). Url m = completeURL join (keydir ac) (Url a)"
  shows "\<exists>m\<in>set (candidates ac a). Url m = completeURL join (keydir ac) (Url a)
           \<and> Find join ac a = Inr m"
proof -
  let ?url = "completeURL join (keydir ac) (Url a)"
  from assms(2) obtain m where "find (\<lambda>m. Url m = ?url) (candidates ac a) = Some m"
    by (cases "find (\<lambda>m. Url m = ?url) (candidates ac a)") (auto simp: find_None_iff)
  moreover from this have "m \<in> set (candidates ac a)" "Url m = ?url"
    by (auto simp: find_Some_iff)
  ultimately show ?thesis using assms(1) by (auto simp: Find_def Let_def)
qed

lemma Find_no_exact:
  assumes "Path (Url a) = [] \<or> (\<forall>m\<in>set (candidates ac a). Url m \<noteq> completeURL join (keydir ac) (Url a))"
  shows "Find join ac a =
     (if Path (Url a) \<noteq> [] \<and> Address a = zeroAddress then Inl ErrNoMatch
      else case candidates ac a of
             [m] \<Rightarrow> Inr m
           | [] \<Rightarrow> Inl ErrNoMatch
           | _ \<Rightarrow> Inl (AmbiguousAddrError (Address a) (sort_AccountsByURL (candidates ac a))))"
proof (cases "Path (Url a) = []")
  case True
  then show ?thesis by (simp add: Find_def Let_def)
next
  case False
  with assms have "find (\<lambda>m. Url m = completeURL join (keydir ac) (Url a)) (candidates ac a) = None"
    by (auto simp: find_None_iff)
  with False show ?thesis by (simp add: Find_def Let_def)
qed

text \<open>
  C5, amended: for every cache reached by \<open>Add\<close>, \<open>delete\<close> and \<open>deleteByFile\<close> and
  every specifier, the candidates are the accounts with the specifier's address when it
  is nonzero and all accounts otherwise.  When a path is given and a candidate has
  exactly the (completed) URL, \<open>Find\<close> returns such a candidate.  When a path is given,
  no candidate has that URL and the address is zero, \<open>Find\<close> returns no-match.  In
  the remaining cases no candidate gives no-match, one candidate is returned, and two
  or more give an ambiguous-address error that lists exactly the candidates, sorted by
  URL.
\<close>

theorem Find_cases:
  "(let ac = run_ops dir ops;
        matches = candidates ac a;
        url = completeURL join (keydir ac) (Url a);
        exact = (Path (Url a) \<noteq> [] \<and> (\<exists>m\<in>set matches. Url m = url))
    in set matches
         = (if Address a \<noteq> zeroAddress then {m \<in> set (All ac). Address m = Address a}
            else set (All ac))
     \<and> (exact \<longrightarrow> (\<exists>m\<in>set matches. Url m = url \<and> Find join ac a = Inr m))
     \<and> (\<not> exact \<and> Path (Url a) \<noteq> [] \<and> Address a = zeroAddress
          \<longrightarrow> Find join ac a = Inl ErrNoMatch)
     \<and> (\<not> exact \<and> (Path (Url a) = [] \<or> Address a \<noteq> zeroAddress)
          \<longrightarrow> (case matches of
                 [] \<Rightarrow> Find join ac a = Inl ErrNoMatch
               | [m] \<Rightarrow> Find join ac a = Inr m
               | _ \<Rightarrow> (\<exists>ms. Find join ac a = Inl (AmbiguousAddrError (Address a) ms)
                          \<and> sortedByURL ms \<and> mset ms = mset matches))))"
proof -
  let ?ac = "run_ops dir ops"
  let ?url = "completeURL join (keydir ?ac) (Url a)"
  let ?exact = "Path (Url a) \<noteq> [] \<and> (\<exists>m\<in>set (candidates ?ac a). Url m = ?url)"
  have 1: "?exact \<longrightarrow> (\<exists>m\<in>set (candidates ?ac a). Url m = ?url \<and> Find join ?ac a = Inr m)"
    using Find_exact [of a ?ac join] by blast
  have ne: "\<not> ?exact \<Longrightarrow> Path (Url a) = [] \<or> (\<forall>m\<in>set (candidates ?ac a). Url m \<noteq> ?url)"
    by blast
  have 2: "\<not> ?exact \<and> Path (Url a) \<noteq> [] \<and> Address a = zeroAddress
          \<longrightarrow> Find join ?ac a = Inl ErrNoMatch"
  proof
    assume h: "\<not> ?exact \<and> Path (Url a) \<noteq> [] \<and> Address a = zeroAddress"
    then have "\<not> ?exact" by blast
    from Find_no_exact [OF ne [OF this]] h show "Find join ?ac a = Inl ErrNoMatch" by simp
  qed
  have 3: "\<not> ?exact \<and> (Path (Url a) = [] \<or> Address a \<noteq> zeroAddress)
          \<longrightarrow> (case candidates ?ac a of
                 [] \<Rightarrow> Find join ?ac a = Inl ErrNoMatch
               | [m] \<Rightarrow> Find join ?ac a = Inr m
               | _ \<Rightarrow> (\<exists>ms. Find join ?ac a = Inl (AmbiguousAddrError (Address a) ms)
                          \<and> sortedByURL ms \<and> mset ms = mset (candidates ?ac a)))"
  proof
    assume h: "\<not> ?exact \<and> (Path (Url a) = [] \<or> Address a \<noteq> zeroAddress)"
    then have "\<not> ?exact" by blast
    from Find_no_exact [OF ne [OF this]] h have f: "Find join ?ac a =
       (case candidates ?ac a of
             [m] \<Rightarrow> Inr m
           | [] \<Rightarrow> Inl ErrNoMatch
           | _ \<Rightarrow> Inl (AmbiguousAddrError (Address a) (sort_AccountsByURL (candidates ?ac a))))"
      by auto
    show "case candidates ?ac a of
                 [] \<Rightarrow> Find join ?ac a = Inl ErrNoMatch
               | [m] \<Rightarrow> Find join ?ac a = Inr m
               | _ \<Rightarrow> (\<exists>ms. Find join ?ac a = Inl (AmbiguousAddrError (Address a) ms)
                          \<and> sortedByURL ms \<and> mset ms = mset (candidates ?ac a))"
      unfolding f
      by (auto split: list.splits
          intro!: exI [of _ "sort_AccountsByURL (candidates ?ac a)"]
          simp: sort_AccountsByURL_sorted sort_AccountsByURL_mset)
  qed
  from candidates_run_ops [of dir ops a] 1 2 3 show ?thesis
    unfolding Let_def by blast
qed

theorem Find_cases_witness:
  "Find join_simple (run_ops ''/keys'' [OpAdd acctB, OpAdd acctC, OpAdd acctA])
      \<lparr>Address = replicate 19 0 @ [1], Url = \<lparr>Scheme = [], Path = []\<rparr>\<rparr>
     = Inl (AmbiguousAddrError (replicate 19 0 @ [1]) [acctA, acctB])
   \<and> Find join_simple (run_ops ''/keys'' [OpAdd acctB, OpAdd acctC, OpAdd acctA])
      \<lparr>Address = replicate 19 0 @ [2], Url = \<lparr>Scheme = [], Path = []\<rparr>\<rparr>
     = Inr acctC
   \<and> Find join_simple (run_ops ''/keys'' [OpAdd acctB, OpAdd acctC, OpAdd acctA])
      \<lparr>Address = replicate 19 0 @ [1], Url = \<lparr>Scheme = ''file'', Path = ''b''\<rparr>\<rparr>
     = Inr acctB"
proof -
  have "Find join_simple (run_ops ''/keys'' [OpAdd acctB, OpAdd acctC, OpAdd acctA])
      \<lparr>Address = replicate 19 0 @ [1], Url = \<lparr>Scheme = [], Path = []\<rparr>\<rparr>
     = Inl (AmbiguousAddrError (replicate 19 0 @ [1]) [acctA, acctB])"
    by code_simp
  moreover have "Find join_simple (run_ops ''/keys'' [OpAdd acctB, OpAdd acctC, OpAdd acctA])
      \<lparr>Address = replicate 19 0 @ [2], Url = \<lparr>Scheme = [], Path = []\<rparr>\<rparr>
     = Inr acctC"
    by code_simp
  moreover have "Find join_simple (run_ops ''/keys'' [OpAdd acctB, OpAdd acctC, OpAdd acctA])
      \<lparr>Address = replicate 19 0 @ [1], Url = \<lparr>Scheme = ''file'', Path = ''b''\<rparr>\<rparr>
     = Inr acctB"
    by code_simp
  ultimately show ?thesis
    using Find_cases [where dir = "''/keys''" and ops = "[OpAdd acctB, OpAdd acctC, OpAdd acctA]"
        and join = join_simple
        and a = "\<lparr>Address = replicate 19 0 @ [1], Url = \<lparr>Scheme = [], Path = []\<rparr>\<rparr>"]
    by simp
qed

section \<open>The wire form of an account\<close>

lemma nibble_cases:
  "n < (16::nat) \<Longrightarrow> n \<in> {0, 1, 2, 3, 4, 5, 6, 7, 8, 9, 10, 11, 12, 13, 14, 15}"
  by simp arith

lemma fromHexChar_hextable:
  assumes "n < (16::nat)"
  shows "fromHexChar (hextable ! n) = Some (of_nat n)"
  using nibble_cases [OF assms]
  by (auto simp: hextable_def fromHexChar_def)

lemma hextable_isHexCharacter:
  assumes "n < (16::nat)"
  shows "isHexCharacter (hextable ! n) \<and> \<not> isSpace (hextable ! n)
         \<and> hextable ! n \<noteq> CHR ''x'' \<and> hextable ! n \<noteq> CHR ''X''"
  using nibble_cases [OF assms]
  by (auto simp: hextable_def isHexCharacter_def isSpace_def)

lemma hi_nibble: "unat (drop_bit 4 (v::byte)) < 16"
proof -
  have "unat v < 2 ^ LENGTH(8)" by (rule unsigned_less)
  then have "unat v < 256" by simp
  moreover have "unat (drop_bit 4 v) = drop_bit 4 (unat v)" by (rule unat_drop_bit_eq)
  moreover have "drop_bit 4 (unat v) = unat v div 16" by (simp add: drop_bit_eq_div)
  ultimately show ?thesis by (simp only:)
qed

lemma lo_nibble: "unat ((v::byte) AND 0x0f) < 16"
proof -
  have "v AND 0x0f = take_bit 4 v"
    by (simp add: take_bit_eq_mask mask_eq_exp_minus_1)
  moreover have "unat (take_bit 4 v) = take_bit 4 (unat v)" by (rule unsigned_take_bit_eq)
  moreover have "take_bit 4 (unat v) = unat v mod 16" by (simp add: take_bit_eq_mod)
  ultimately show ?thesis by (simp only:)
qed

lemma nibbles_join: "push_bit 4 (drop_bit 4 v) OR (v AND 0x0f) = (v::byte)"
proof -
  have "v AND 0x0f = take_bit 4 v"
    by (simp add: take_bit_eq_mask mask_eq_exp_minus_1)
  then show ?thesis
    by (simp only:) (rule bit_word_eqI, auto simp: bit_simps)
qed


lemma Bytes2Hex_Cons:
  "Bytes2Hex (v # d)
     = hextable ! unat (drop_bit 4 v) # hextable ! unat (v AND 0x0f) # Bytes2Hex d"
  by (simp add: Bytes2Hex_def)

lemma Bytes2Hex_Nil: "Bytes2Hex [] = []"
  by (simp add: Bytes2Hex_def)

lemma length_Bytes2Hex: "length (Bytes2Hex d) = 2 * length d"
  by (induction d) (simp_all add: Bytes2Hex_Nil Bytes2Hex_Cons)

lemma Bytes2Hex_chars:
  "c \<in> set (Bytes2Hex d) \<Longrightarrow> isHexCharacter c \<and> \<not> isSpace c"
proof (induction d)
  case Nil
  then show ?case by (simp add: Bytes2Hex_Nil)
next
  case (Cons v d)
  from hextable_isHexCharacter [OF hi_nibble [of v]] hextable_isHexCharacter [OF lo_nibble [of v]]
    Cons
  show ?case by (auto simp: Bytes2Hex_Cons)
qed

lemma Hex2Bytes_Bytes2Hex: "Hex2Bytes (Bytes2Hex d) = d"
proof (induction d)
  case Nil
  then show ?case by (simp add: Bytes2Hex_Nil)
next
  case (Cons v d)
  have "fromHexChar (hextable ! unat (drop_bit 4 v)) = Some (drop_bit 4 v)"
    using fromHexChar_hextable [OF hi_nibble [of v]] by simp
  moreover have "fromHexChar (hextable ! unat (v AND 0x0f)) = Some (v AND 0x0f)"
    using fromHexChar_hextable [OF lo_nibble [of v]] by simp
  ultimately show ?case using Cons nibbles_join [of v] by (simp add: Bytes2Hex_Cons)
qed

lemma has0xPrefix_Bytes2Hex: "\<not> has0xPrefix (Bytes2Hex d)"
proof (cases d)
  case Nil
  then show ?thesis by (simp add: has0xPrefix_def Bytes2Hex_Nil)
next
  case (Cons v d')
  with hextable_isHexCharacter [OF lo_nibble [of v]]
  show ?thesis by (simp add: has0xPrefix_def Bytes2Hex_Cons)
qed

lemma dropWhile_id: "\<forall>c\<in>set s. \<not> P c \<Longrightarrow> dropWhile P s = s"
  by (cases s) auto

lemma TrimSpace_Bytes2Hex: "TrimSpace (Bytes2Hex d) = Bytes2Hex d"
proof -
  have n: "\<forall>c\<in>set (Bytes2Hex d). \<not> isSpace c" using Bytes2Hex_chars by blast
  then have "dropWhile isSpace (Bytes2Hex d) = Bytes2Hex d" by (rule dropWhile_id)
  moreover from n have "dropWhile isSpace (rev (Bytes2Hex d)) = rev (Bytes2Hex d)"
    by (intro dropWhile_id) simp
  ultimately show ?thesis by (simp add: TrimSpace_def)
qed

lemma IsHexAddress_Bytes2Hex:
  "length d = AddressLength \<Longrightarrow> IsHexAddress (Bytes2Hex d)"
  using Bytes2Hex_chars [of _ d]
  by (auto simp: IsHexAddress_def has0xPrefix_Bytes2Hex length_Bytes2Hex isHex_def
      list_all_iff)

lemma HexToAddress_Bytes2Hex:
  "length d = AddressLength \<Longrightarrow> HexToAddress (Bytes2Hex d) = d"
  by (simp add: HexToAddress_def FromHex_def has0xPrefix_Bytes2Hex length_Bytes2Hex
      Hex2Bytes_Bytes2Hex BytesToAddress_def)

text \<open>
  C10: for every account whose address has 20 bytes and whose URL string parses back
  to its URL, \<open>asAccount\<close> of \<open>asProtoAccount\<close> of the account succeeds and gives
  the account.
\<close>

theorem asAccount_asProtoAccount:
  assumes "length (Address acct) = AddressLength"
    and "toUrl (URL_String (Url acct)) = Inr (Url acct)"
  shows "asAccount toUrl (Some (asProtoAccount acct)) = Ok acct"
  using assms
  by (simp add: asAccount_def asProtoAccount_def TrimSpace_Bytes2Hex IsHexAddress_Bytes2Hex
      HexToAddress_Bytes2Hex)

theorem asAccount_asProtoAccount_witness:
  "length (Address acctA) = AddressLength
   \<and> ToUrl_file (URL_String (Url acctA)) = Inr (Url acctA)
   \<and> asAccount ToUrl_file (Some (asProtoAccount acctA)) = Ok acctA"
proof -
  have l: "length (Address acctA) = AddressLength"
    by (simp add: acctA_def AddressLength_def)
  have u: "ToUrl_file (URL_String (Url acctA)) = Inr (Url acctA)"
    by (simp add: acctA_def ToUrl_file_def URL_String_def)
  from asAccount_asProtoAccount [where toUrl = ToUrl_file and acct = acctA, OF l u] l u
  show ?thesis by simp
qed

end
